theory Spec2Isabelle
  imports Complex_Main "HOL-Library.Sublist"
begin

section \<open>Strings\<close>

text \<open>
  A Python \<open>str\<close> is a sequence of Unicode code points, and \<open>len\<close> counts code points.
  A string is therefore a list of code points; \<open>ascii\<close> turns an ASCII literal into one.
  The non-ASCII literals of \<open>v5.py\<close> are written out as their code points.
\<close>

type_synonym pystr = "nat list"

definition ascii :: "string \<Rightarrow> pystr" where
  "ascii s = map of_char s"

text \<open>\<open>s.startswith(p)\<close>, \<open>s.endswith(p)\<close> and the substring test \<open>needle in hay\<close>.\<close>

definition startswith :: "pystr \<Rightarrow> pystr \<Rightarrow> bool" where
  "startswith s p = (take (length p) s = p)"

definition endswith :: "pystr \<Rightarrow> pystr \<Rightarrow> bool" where
  "endswith s p = (length p \<le> length s \<and> drop (length s - length p) s = p)"

fun py_in :: "pystr \<Rightarrow> pystr \<Rightarrow> bool" where
  "py_in needle [] = (needle = [])"
| "py_in needle (h # hs) = (startswith (h # hs) needle \<or> py_in needle hs)"

text \<open>
  \<open>str.lower()\<close> on the ASCII letters. Code points outside \<open>A..Z\<close> are left as they are:
  Python lowers other cased letters too, but the only code points outside ASCII whose
  lower case contains an ASCII letter are U+212A (giving \<open>k\<close>) and U+0130 (giving \<open>i\<close>
  followed by U+0307), and neither can complete an occurrence of \<open>parent directory\<close>,
  the one needle that is searched in a lowered string.
\<close>

definition lower_cp :: "nat \<Rightarrow> nat" where
  "lower_cp c = (if 65 \<le> c \<and> c \<le> 90 then c + 32 else c)"

definition lower :: "pystr \<Rightarrow> pystr" where
  "lower s = map lower_cp s"

text \<open>The literal U+4E0A U+7EA7 U+76EE U+5F55 (parent directory, in Chinese).\<close>

definition parent_dir_zh :: pystr where
  "parent_dir_zh = [19978, 32423, 30446, 24405]"

section \<open>Listing parser: entries to skip\<close>

text \<open>
  \<open>_should_skip_item(name, href)\<close>: \<open>any\<close> of the five conditions, in the order of the
  source.
\<close>

definition should_skip_item :: "pystr \<Rightarrow> pystr \<Rightarrow> bool" where
  "should_skip_item name href =
     list_ex id
       [ name \<in> set [ascii ''.'', ascii ''..''],
         href \<in> set [ascii ''../'', ascii ''..'', ascii ''./'', ascii ''.''],
         startswith href (ascii ''../'') \<and> length href > 3,
         py_in (ascii ''parent directory'') (lower name),
         py_in parent_dir_zh name ]"

section \<open>History ledger\<close>

datatype status = Success | Failure

text \<open>
  One entry of the history list: the dictionary built by \<open>add_download_record\<close>, with
  the keys \<open>url\<close>, \<open>local_path\<close>, \<open>name\<close>, \<open>status\<close> and \<open>time\<close>.
\<close>

record download_record =
  rec_url :: pystr
  rec_local_path :: pystr
  rec_name :: pystr
  rec_status :: status
  rec_time :: pystr

definition MAX_HISTORY :: nat where
  "MAX_HISTORY = 1000"

text \<open>
  \<open>add_download_record\<close> on the history list: \<open>insert(0, record)\<close>, then the slice
  \<open>[:MAX_HISTORY]\<close> when the list has grown beyond the cap.
\<close>

definition insert_record :: "download_record \<Rightarrow> download_record list \<Rightarrow> download_record list" where
  "insert_record r h =
     (let h1 = r # h
      in if length h1 > MAX_HISTORY then take MAX_HISTORY h1 else h1)"

text \<open>
  The two other mutations of the list, from the history window: \<open>del history[idx]\<close>
  (Python raises IndexError outside \<open>-len .. len-1\<close> and counts a negative index from
  the end) and \<open>history = []\<close>.
\<close>

definition delete_record :: "int \<Rightarrow> download_record list \<Rightarrow> download_record list option" where
  "delete_record idx h =
     (let n = int (length h); j = (if idx < 0 then n + idx else idx)
      in if 0 \<le> j \<and> j < n then Some (take (nat j) h @ drop (Suc (nat j)) h) else None)"

definition clear_history :: "download_record list \<Rightarrow> download_record list" where
  "clear_history h = []"

section \<open>Resumable download engine\<close>

subsection \<open>The environment of one download\<close>

text \<open>
  What a run of \<open>_download_file\<close> receives from outside the program is given to the
  model as data. A \<open>Content-Length\<close> header is classified by what
  \<open>int(headers.get('Content-Length', 0))\<close> does with it: the header is absent (the
  default \<open>0\<close> is used), or its value is an integer literal, or \<open>int\<close> raises
  ValueError (with the given message).
\<close>

type_synonym bytes = "nat list"

datatype cl_header = Absent | Int_value int | Malformed pystr

definition content_length :: "cl_header \<Rightarrow> pystr + int" where
  "content_length h = (case h of Absent \<Rightarrow> Inr 0 | Int_value n \<Rightarrow> Inr n | Malformed m \<Rightarrow> Inl m)"

text \<open>
  \<open>requests.head\<close> raises or returns a response; \<open>urlopen\<close> raises or returns a
  response whose body is read in chunks, each \<open>read\<close> giving bytes or raising. The end
  of the \<open>read_event\<close> list is the end of the stream (\<open>read\<close> gives no bytes).
\<close>

datatype head_response = Head_raises pystr | Head_ok cl_header

datatype read_event = Chunk bytes | Read_raises pystr

datatype get_response = Get_raises pystr | Get_ok cl_header "read_event list"

datatype open_mode = Append | Write

text \<open>
  The observable actions of a run, in order. \<open>Get u (Some p)\<close> is a GET with the header
  \<open>Range: bytes=p-\<close>, \<open>Get u None\<close> a GET without headers.
\<close>

datatype event = Head pystr | Open_file pystr open_mode | Get pystr "nat option"

text \<open>
  \<open>unquote\<close> and \<open>path_join\<close> stand for \<open>urllib.parse.unquote\<close> and \<open>os.path.join\<close>;
  \<open>now\<close> is the formatted clock reading; \<open>head_pre\<close> and \<open>head_post\<close> answer the HEAD
  probe before and after the transfer; \<open>open_error\<close> is the message of the exception
  raised by \<open>open\<close>, if it raises; \<open>cancel_download k\<close> is the value of the shared flag at
  the \<open>k\<close>-th poll of the streaming loop (\<open>None\<close>: the attribute does not exist yet, which
  is the case when a download is restarted from the history window before any batch).
\<close>

record env =
  unquote :: "pystr \<Rightarrow> pystr"
  path_join :: "pystr \<Rightarrow> pystr \<Rightarrow> pystr"
  now :: pystr
  head_pre :: head_response
  head_post :: head_response
  open_error :: "pystr option"
  get_response :: get_response
  cancel_download :: "nat \<Rightarrow> bool option"

record world =
  files :: "pystr \<rightharpoonup> bytes"
  download_history :: "download_record list"
  log :: "event list"

subsection \<open>Messages\<close>

text \<open>
  \<open>cancel_marker\<close> is U+5DF2 U+53D6 U+6D88 (cancelled), the substring the handler looks
  for; \<open>cancelled_msg\<close> is the message raised at a poll that finds the flag set;
  \<open>incomplete_msg\<close> is the message raised when the final check fails.
\<close>

definition cancel_marker :: pystr where
  "cancel_marker = [24050, 21462, 28040]"

definition cancelled_msg :: pystr where
  "cancelled_msg = [19979, 36733, 24050, 21462, 28040]"

definition incomplete_msg :: pystr where
  "incomplete_msg = [25991, 20214, 19979, 36733, 19981, 23436, 25972]"

definition attribute_error_msg :: pystr where
  "attribute_error_msg =
     ascii ([CHR 0x27] @ ''AstronomyDBBrowser'' @ [CHR 0x27] @ '' object has no attribute ''
            @ [CHR 0x27] @ ''cancel_download'' @ [CHR 0x27])"

subsection \<open>Splitting a URL\<close>

text \<open>\<open>s.split(sep)\<close> for a one-character separator; the result is never empty.\<close>

fun split_on :: "nat \<Rightarrow> pystr \<Rightarrow> pystr list" where
  "split_on sep [] = [[]]"
| "split_on sep (c # cs) =
     (if c = sep then [] # split_on sep cs
      else (case split_on sep cs of [] \<Rightarrow> [[c]] | p # ps \<Rightarrow> (c # p) # ps))"

definition slash :: nat where
  "slash = 47"

subsection \<open>The functions of the engine\<close>

text \<open>
  \<open>add_download_record(url, local_path, status, name)\<close> on the world. Saving the list to
  its file is not modelled (its errors are caught and logged).
\<close>

definition history_record :: "env \<Rightarrow> pystr \<Rightarrow> pystr \<Rightarrow> status \<Rightarrow> pystr \<Rightarrow> download_record" where
  "history_record e file_url lp st nm =
     \<lparr>rec_url = file_url, rec_local_path = lp, rec_name = nm,
      rec_status = st, rec_time = now e\<rparr>"

definition add_download_record ::
  "env \<Rightarrow> pystr \<Rightarrow> pystr \<Rightarrow> status \<Rightarrow> pystr \<Rightarrow> world \<Rightarrow> world" where
  "add_download_record e file_url lp st nm w =
     w\<lparr>download_history :=
         insert_record (history_record e file_url lp st nm) (download_history w)\<rparr>"

text \<open>
  \<open>_is_file_complete(file_url, local_size)\<close>: the comparison, and the function with the
  HEAD request it issues. Every exception inside the \<open>try\<close> (the request, or \<open>int\<close> on the
  header) gives \<open>False\<close>.
\<close>

definition complete_check :: "head_response \<Rightarrow> nat \<Rightarrow> bool" where
  "complete_check resp local_size =
     (case resp of
        Head_raises m \<Rightarrow> False
      | Head_ok h \<Rightarrow>
          (case content_length h of
             Inl m \<Rightarrow> False
           | Inr remote_size \<Rightarrow> int local_size \<ge> remote_size - 1024))"

definition is_file_complete :: "head_response \<Rightarrow> pystr \<Rightarrow> nat \<Rightarrow> world \<Rightarrow> bool \<times> world" where
  "is_file_complete resp file_url local_size w =
     (complete_check resp local_size, w\<lparr>log := log w @ [Head file_url]\<rparr>)"

text \<open>
  The \<open>while True\<close> loop of \<open>_download_file\<close>: poll the flag, read a chunk, stop at the
  end of the stream, write the chunk, then evaluate \<open>int(Content-Length)\<close> of the GET
  response for the progress display. The result is the message of the exception that
  left the loop, if any, and the content of the file when the loop is left.
\<close>

fun stream_loop ::
  "(nat \<Rightarrow> bool option) \<Rightarrow> cl_header \<Rightarrow> nat \<Rightarrow> read_event list \<Rightarrow> bytes \<Rightarrow> pystr option \<times> bytes" where
  "stream_loop flag cl k [] content =
     (case flag k of
        None \<Rightarrow> (Some attribute_error_msg, content)
      | Some True \<Rightarrow> (Some cancelled_msg, content)
      | Some False \<Rightarrow> (None, content))"
| "stream_loop flag cl k (ev # evs) content =
     (case flag k of
        None \<Rightarrow> (Some attribute_error_msg, content)
      | Some True \<Rightarrow> (Some cancelled_msg, content)
      | Some False \<Rightarrow>
          (case ev of
             Read_raises m \<Rightarrow> (Some m, content)
           | Chunk c \<Rightarrow>
               if c = [] then (None, content)
               else (case content_length cl of
                       Inl m \<Rightarrow> (Some m, content @ c)
                     | Inr n \<Rightarrow> stream_loop flag cl (Suc k) evs (content @ c))))"

text \<open>
  The \<open>except\<close> clause of \<open>_download_file\<close>: a Failure record with an empty local path
  unless the message contains the marker; the exception is raised again (\<open>Inl\<close>).
\<close>

definition handler ::
  "env \<Rightarrow> pystr \<Rightarrow> pystr \<Rightarrow> pystr \<Rightarrow> world \<Rightarrow> (pystr + unit) \<times> world" where
  "handler e file_url file_name msg w =
     (Inl msg,
      if \<not> py_in cancel_marker msg
      then add_download_record e file_url [] Failure file_name w
      else w)"

text \<open>
  The end of \<open>_download_file\<close>: the completeness check on the final size of the file,
  then the Success record, or the exception for an incomplete file.
\<close>

definition verify_and_record ::
  "env \<Rightarrow> pystr \<Rightarrow> pystr \<Rightarrow> pystr \<Rightarrow> nat \<Rightarrow> world \<Rightarrow> (pystr + unit) \<times> world" where
  "verify_and_record e file_url save_path file_name final_size w =
     (let c = is_file_complete (head_post e) file_url final_size w
      in if \<not> fst c
         then handler e file_url file_name incomplete_msg (snd c)
         else (Inr (), add_download_record e file_url save_path Success file_name (snd c)))"

text \<open>
  The body of \<open>with open(...) as f\<close>: the GET request and the loop writing to the file,
  which holds \<open>start\<close> when it is opened.
\<close>

definition get_and_stream ::
  "env \<Rightarrow> pystr \<Rightarrow> pystr \<Rightarrow> pystr \<Rightarrow> bytes \<Rightarrow> world \<Rightarrow> (pystr + unit) \<times> world" where
  "get_and_stream e file_url save_path file_name start w =
     (case get_response e of
        Get_raises m \<Rightarrow> handler e file_url file_name m w
      | Get_ok cl evs \<Rightarrow>
          (let r = stream_loop (cancel_download e) cl 0 evs start;
               w3 = w\<lparr>files := (files w)(save_path \<mapsto> snd r)\<rparr>
           in (case fst r of
                 Some m \<Rightarrow> handler e file_url file_name m w3
               | None \<Rightarrow> verify_and_record e file_url save_path file_name (length (snd r)) w3)))"

text \<open>
  \<open>_download_file\<close> from the construction of the headers on: open the file (append when
  resuming, else truncate), GET, stream, check, record.
\<close>

definition transfer ::
  "env \<Rightarrow> pystr \<Rightarrow> pystr \<Rightarrow> pystr \<Rightarrow> nat \<Rightarrow> world \<Rightarrow> (pystr + unit) \<times> world" where
  "transfer e file_url save_path file_name resume_byte_pos w =
     (let headers = (if resume_byte_pos > 0 then Some resume_byte_pos else None);
          mode = (if resume_byte_pos > 0 then Append else Write);
          w1 = w\<lparr>log := log w @ [Open_file save_path mode]\<rparr>
      in (case open_error e of
            Some m \<Rightarrow> handler e file_url file_name m w1
          | None \<Rightarrow>
              (let start = (case mode of
                              Append \<Rightarrow> (case files w1 save_path of Some c \<Rightarrow> c | None \<Rightarrow> [])
                            | Write \<Rightarrow> []);
                   w2 = w1\<lparr>files := (files w1)(save_path \<mapsto> start),
                           log := log w1 @ [Get file_url headers]\<rparr>
               in get_and_stream e file_url save_path file_name start w2)))"

text \<open>
  \<open>_download_file(file_url, save_dir)\<close>, with its first two lines as \<open>file_name_of\<close>
  and \<open>save_path_of\<close>. The result is \<open>Inr ()\<close> when the function
  returns and \<open>Inl msg\<close> when it raises an exception with message \<open>msg\<close>. Message boxes,
  progress and logging are not modelled.
\<close>

definition file_name_of :: "env \<Rightarrow> pystr \<Rightarrow> pystr" where
  "file_name_of e file_url = unquote e (last (split_on slash file_url))"

definition save_path_of :: "env \<Rightarrow> pystr \<Rightarrow> pystr \<Rightarrow> pystr" where
  "save_path_of e file_url save_dir = path_join e save_dir (file_name_of e file_url)"

definition download_file ::
  "env \<Rightarrow> pystr \<Rightarrow> pystr \<Rightarrow> world \<Rightarrow> (pystr + unit) \<times> world" where
  "download_file e file_url save_dir w =
     (let file_name = file_name_of e file_url;
          save_path = save_path_of e file_url save_dir
      in (case files w save_path of
            None \<Rightarrow> transfer e file_url save_path file_name 0 w
          | Some c \<Rightarrow>
              (let resume_byte_pos = length c;
                   chk = is_file_complete (head_pre e) file_url resume_byte_pos w
               in if fst chk
                  then (Inr (),
                        add_download_record e file_url save_path Success file_name (snd chk))
                  else transfer e file_url save_path file_name resume_byte_pos (snd chk))))"

subsection \<open>The file before a run\<close>

text \<open>
  The content found at the target path (empty when there is no file), and whether the
  first lines of \<open>_download_file\<close> find the file already complete.
\<close>

definition old_content :: "world \<Rightarrow> pystr \<Rightarrow> bytes" where
  "old_content w save_path = (case files w save_path of None \<Rightarrow> [] | Some c \<Rightarrow> c)"

definition already_complete :: "env \<Rightarrow> world \<Rightarrow> pystr \<Rightarrow> bool" where
  "already_complete e w save_path =
     (case files w save_path of
        None \<Rightarrow> False
      | Some c \<Rightarrow> complete_check (head_pre e) (length c))"

subsection \<open>The ledger after a run\<close>


subsection \<open>A sample environment\<close>

text \<open>
  Concrete inputs for closed instances: percent-decoding that changes nothing, paths
  joined with a slash, a server that answers every probe with the given headers.
\<close>

definition sample_env :: "head_response \<Rightarrow> head_response \<Rightarrow> get_response \<Rightarrow> env" where
  "sample_env pre post g =
     \<lparr>unquote = (\<lambda>s. s), path_join = (\<lambda>d f. d @ slash # f), now = ascii ''t'',
      head_pre = pre, head_post = post, open_error = None, get_response = g,
      cancel_download = (\<lambda>k. Some False)\<rparr>"

definition sample_world :: "bytes option \<Rightarrow> world" where
  "sample_world c = \<lparr>files = (\<lambda>p. if p = ascii ''d/f'' then c else None),
                     download_history = [], log = []\<rparr>"





section \<open>Download tasks and the batch orchestrator\<close>

subsection \<open>String helpers\<close>

text \<open>
  \<open>s.rstrip(c)\<close> and \<open>s.replace(c, r)\<close> for single characters, and \<open>str(n)\<close> for a
  natural number.
\<close>

definition rstrip :: "nat \<Rightarrow> pystr \<Rightarrow> pystr" where
  "rstrip c s = rev (dropWhile (\<lambda>x. x = c) (rev s))"

definition str_replace :: "nat \<Rightarrow> nat \<Rightarrow> pystr \<Rightarrow> pystr" where
  "str_replace c r s = map (\<lambda>x. if x = c then r else x) s"


subsection \<open>One task\<close>

text \<open>
  \<open>INVALID_CHARS\<close> is the string \<open>/ \ : * ? " < > |\<close>; \<open>dir_label\<close> is the file type
  U+76EE U+5F55 (directory) shown in the fourth column of the tree.
\<close>

definition INVALID_CHARS :: pystr where
  "INVALID_CHARS = [47, 92, 58, 42, 63, 34, 60, 62, 124]"

definition underscore :: nat where
  "underscore = 95"

definition dir_label :: pystr where
  "dir_label = [30446, 24405]"

text \<open>
  A row of the tree as \<open>_download_item\<close> reads it: \<open>values[0]\<close>, \<open>values[3]\<close> and
  \<open>tags[0]\<close>.
\<close>

record tree_item =
  item_name :: pystr
  item_type :: pystr
  item_url :: pystr

text \<open>
  What \<open>_download_item\<close> returns, \<open>(result, file_name, error)\<close>, or the exception that
  \<open>future.result()\<close> raises.
\<close>

datatype task_result = Returned bool pystr "pystr option" | Future_raised pystr

text \<open>The loop \<open>for c in self.INVALID_CHARS: dir_name = dir_name.replace(c, '_')\<close>.\<close>

definition sanitize :: "pystr \<Rightarrow> pystr" where
  "sanitize dir_name = foldl (\<lambda>s c. str_replace c underscore s) dir_name INVALID_CHARS"

text \<open>
  The non-empty segments of the URL, and the destination directory of a File task
  (before \<open>os.makedirs\<close>).
\<close>

definition url_parts :: "pystr \<Rightarrow> pystr list" where
  "url_parts file_url = filter (\<lambda>p. p \<noteq> []) (split_on slash (rstrip slash file_url))"

definition file_dir_of :: "env \<Rightarrow> pystr \<Rightarrow> pystr \<Rightarrow> pystr" where
  "file_dir_of e download_dir file_url =
     (let parts = url_parts file_url
      in if length parts \<ge> 2
         then path_join e download_dir
                (sanitize (unquote e (parts ! (length parts - 2))))
         else download_dir)"

text \<open>
  \<open>_download_item\<close> for a row that the tree still holds. The recursive directory
  download is a parameter \<open>dd\<close> (URL, destination, world); \<open>mk\<close> is the message of the
  exception raised by \<open>os.makedirs\<close>, if it raises. Every exception is caught and
  returned as \<open>(False, file_name, str(e))\<close>.
\<close>

type_synonym directory_downloader = "pystr \<Rightarrow> pystr \<Rightarrow> world \<Rightarrow> (pystr + unit) \<times> world"

definition task_outcome :: "pystr \<Rightarrow> (pystr + unit) \<times> world \<Rightarrow> task_result \<times> world" where
  "task_outcome file_name r =
     (case fst r of
        Inl m \<Rightarrow> (Returned False file_name (Some m), snd r)
      | Inr u \<Rightarrow> (Returned True file_name None, snd r))"

definition download_item ::
  "directory_downloader \<Rightarrow> pystr option \<Rightarrow> env \<Rightarrow> pystr \<Rightarrow> tree_item \<Rightarrow> world
     \<Rightarrow> task_result \<times> world" where
  "download_item dd mk e download_dir item w =
     (let file_type = item_type item; file_url = item_url item; file_name = item_name item
      in if file_type = dir_label
         then task_outcome file_name
                (dd file_url (path_join e download_dir (rstrip slash file_name)) w)
         else (if length (url_parts file_url) \<ge> 2
               then (case mk of
                       Some m \<Rightarrow> (Returned False file_name (Some m), w)
                     | None \<Rightarrow>
                         task_outcome file_name
                           (download_file e file_url (file_dir_of e download_dir file_url) w))
               else task_outcome file_name
                      (download_file e file_url (file_dir_of e download_dir file_url) w)))"

subsection \<open>The batch\<close>









text \<open>
  A result that reports a cancelled task: \<open>_download_item\<close> caught the exception raised
  at a poll that found the flag set.
\<close>

definition cancelled_result :: "task_result \<Rightarrow> bool" where
  "cancelled_result r =
     (case r of
        Returned result file_name error \<Rightarrow>
          \<not> result \<and> (case error of None \<Rightarrow> False | Some m \<Rightarrow> py_in cancel_marker m)
      | Future_raised m \<Rightarrow> False)"

text \<open>Whether a result counts as a success: \<open>result\<close> of the returned triple.\<close>

definition returned_true :: "task_result \<Rightarrow> bool" where
  "returned_true r = (case r of Returned result file_name error \<Rightarrow> result | Future_raised m \<Rightarrow> False)"

subsection \<open>Sample inputs for a batch\<close>






section \<open>Listing parser and directory cache\<close>

subsection \<open>Whitespace\<close>

text \<open>
  The code points for which \<open>str.isspace\<close> holds; \<open>strip()\<close> and \<open>split()\<close> without
  arguments use this set.
\<close>

definition is_space :: "nat \<Rightarrow> bool" where
  "is_space c \<longleftrightarrow>
     (9 \<le> c \<and> c \<le> 13) \<or> (28 \<le> c \<and> c \<le> 32) \<or> c = 133 \<or> c = 160 \<or> c = 5760
     \<or> (8192 \<le> c \<and> c \<le> 8202) \<or> c = 8232 \<or> c = 8233 \<or> c = 8239 \<or> c = 8287
     \<or> c = 12288"

definition strip :: "pystr \<Rightarrow> pystr" where
  "strip s = rev (dropWhile is_space (rev (dropWhile is_space s)))"

fun split_ws_acc :: "pystr \<Rightarrow> pystr \<Rightarrow> pystr list" where
  "split_ws_acc cur [] = (if cur = [] then [] else [cur])"
| "split_ws_acc cur (c # cs) =
     (if is_space c
      then (if cur = [] then split_ws_acc [] cs else cur # split_ws_acc [] cs)
      else split_ws_acc (cur @ [c]) cs)"

definition split_ws :: "pystr \<Rightarrow> pystr list" where
  "split_ws s = split_ws_acc [] s"

fun py_join :: "pystr \<Rightarrow> pystr list \<Rightarrow> pystr" where
  "py_join sep [] = []"
| "py_join sep [x] = x"
| "py_join sep (x # y # ys) = x @ sep @ py_join sep (y # ys)"

subsection \<open>Entries of a listing\<close>

text \<open>
  \<open>unknown\<close> is U+672A U+77E5 (unknown), the default of date and size; \<open>file_label\<close> is
  U+6587 U+4EF6 (file).
\<close>

definition unknown :: pystr where
  "unknown = [26410, 30693]"


text \<open>
  What follows an anchor in the parsed page: nothing, a text node, or an element. An
  anchor of the page: its text, its \<open>href\<close> attribute if it has one, and its next
  sibling.
\<close>

datatype sibling = No_sibling | Text_node pystr | Element_node



text \<open>
  \<open>_parse_file_info(a_tag)\<close>, on the next sibling of the anchor: \<open>(date, size)\<close>. An
  element is true as a condition and has no method \<open>strip\<close> (the attribute lookup gives
  \<open>None\<close>), so the call raises TypeError with the message \<open>not_callable_msg\<close>.
\<close>

definition not_callable_msg :: pystr where
  "not_callable_msg = ascii ([CHR 0x27] @ ''NoneType'' @ [CHR 0x27] @ '' object is not callable'')"

definition parse_file_info :: "sibling \<Rightarrow> pystr + pystr \<times> pystr" where
  "parse_file_info next_sibling =
     (case next_sibling of
        No_sibling \<Rightarrow> Inr (unknown, unknown)
      | Element_node \<Rightarrow> Inl not_callable_msg
      | Text_node s \<Rightarrow>
          if s = [] then Inr (unknown, unknown)
          else (let s1 = strip s
                in if s1 = [] then Inr (unknown, unknown)
                   else (let parts = split_ws s1
                         in if length parts \<ge> 3
                            then Inr (py_join (ascii '' '') (take 2 parts),
                                      if parts ! 2 \<noteq> ascii ''-'' then parts ! 2 else unknown)
                            else Inr (unknown, unknown))))"


subsection \<open>Directory cache\<close>











subsection \<open>Sizes for sorting\<close>

text \<open>
  \<open>parse_size\<close> of \<open>sort_column\<close>. Python's \<open>float\<close> is a parameter \<open>flt\<close>: the value of
  the literal, or the message of the ValueError. Values are rational numbers: the
  products with 1024 are exact in binary floating point (short of overflow), so no
  rounding is involved beyond that of \<open>float\<close> itself. \<open>parse_size_try\<close> is the body of
  the \<open>try\<close>, \<open>parse_size\<close> the function with its \<open>except: return 0\<close>.
\<close>

definition parse_size_try :: "(pystr \<Rightarrow> pystr + rat) \<Rightarrow> pystr \<Rightarrow> pystr + rat" where
  "parse_size_try flt size_str =
     (if size_str = unknown then Inr 0
      else if endswith size_str (ascii ''K'')
        then (case flt (butlast size_str) of Inl m \<Rightarrow> Inl m | Inr v \<Rightarrow> Inr (v * 1024))
      else if endswith size_str (ascii ''M'')
        then (case flt (butlast size_str) of Inl m \<Rightarrow> Inl m | Inr v \<Rightarrow> Inr (v * 1024 * 1024))
      else if endswith size_str (ascii ''G'')
        then (case flt (butlast size_str) of
                Inl m \<Rightarrow> Inl m | Inr v \<Rightarrow> Inr (v * 1024 * 1024 * 1024))
      else flt size_str)"

definition parse_size :: "(pystr \<Rightarrow> pystr + rat) \<Rightarrow> pystr \<Rightarrow> pystr + rat" where
  "parse_size flt size_str =
     (case parse_size_try flt size_str of Inl m \<Rightarrow> Inr 0 | Inr v \<Rightarrow> Inr v)"

text \<open>
  A sample for \<open>flt\<close>: the value of a plain decimal literal (digits, optionally a point
  and more digits), as \<open>float\<close> gives it; every other string is refused here.
\<close>

definition is_digit :: "nat \<Rightarrow> bool" where
  "is_digit c \<longleftrightarrow> 48 \<le> c \<and> c \<le> 57"

definition digits_value :: "pystr \<Rightarrow> nat" where
  "digits_value ds = foldl (\<lambda>a c. 10 * a + (c - 48)) 0 ds"

definition decimal_float :: "pystr \<Rightarrow> pystr + rat" where
  "decimal_float s =
     (let ip = takeWhile (\<lambda>c. c \<noteq> 46) s; fp = drop 1 (dropWhile (\<lambda>c. c \<noteq> 46) s)
      in if ip \<noteq> [] \<and> list_all is_digit ip \<and> list_all is_digit fp
         then Inr (of_nat (digits_value ip) + of_nat (digits_value fp) / 10 ^ length fp)
         else Inl (ascii ''could not convert string to float''))"

section \<open>Properties\<close>

subsection \<open>Strings\<close>

lemma py_in_iff: "py_in needle hay \<longleftrightarrow> (\<exists>ps ss. hay = ps @ needle @ ss)"
proof (induction hay)
  case Nil
  then show ?case by auto
next
  case (Cons h hs)
  have pre: "startswith (h # hs) needle \<longleftrightarrow> (\<exists>ss. h # hs = needle @ ss)"
    unfolding startswith_def
    by (metis append_eq_conv_conj append_take_drop_id)
  show ?case
  proof
    assume "py_in needle (h # hs)"
    then consider "startswith (h # hs) needle" | "py_in needle hs" by auto
    then show "\<exists>ps ss. h # hs = ps @ needle @ ss"
    proof cases
      case 1
      then obtain ss where "h # hs = needle @ ss" using pre by blast
      then have "h # hs = [] @ needle @ ss" by simp
      then show ?thesis by blast
    next
      case 2
      then obtain ps ss where "hs = ps @ needle @ ss" using Cons.IH by blast
      then have "h # hs = (h # ps) @ needle @ ss" by simp
      then show ?thesis by blast
    qed
  next
    assume "\<exists>ps ss. h # hs = ps @ needle @ ss"
    then obtain ps ss where eq: "h # hs = ps @ needle @ ss" by blast
    show "py_in needle (h # hs)"
    proof (cases ps)
      case Nil
      then have "startswith (h # hs) needle" using eq pre by auto
      then show ?thesis by simp
    next
      case (Cons p ps')
      then have "hs = ps' @ needle @ ss" using eq by simp
      then have "py_in needle hs" using Cons.IH by blast
      then show ?thesis by simp
    qed
  qed
qed

subsection \<open>Entries to skip\<close>

lemma startswith_iff: "startswith s p \<longleftrightarrow> (\<exists>r. s = p @ r)"
  unfolding startswith_def by (metis append_eq_conv_conj append_take_drop_id)

lemma dotdot_prefix:
  "startswith href (ascii ''../'') \<and> length href > 3
   \<longleftrightarrow> (\<exists>rest. href = ascii ''../'' @ rest \<and> rest \<noteq> [])"
proof
  assume a: "startswith href (ascii ''../'') \<and> length href > 3"
  then obtain r where r: "href = ascii ''../'' @ r" unfolding startswith_iff by blast
  have "length href = 3 + length r" by (subst r) (simp add: ascii_def)
  then have "r \<noteq> []" using a by auto
  then show "\<exists>rest. href = ascii ''../'' @ rest \<and> rest \<noteq> []" using r by blast
next
  assume "\<exists>rest. href = ascii ''../'' @ rest \<and> rest \<noteq> []"
  then obtain rest where r: "href = ascii ''../'' @ rest" and ne: "rest \<noteq> []" by blast
  have "startswith href (ascii ''../'')" unfolding startswith_iff using r by blast
  moreover have "length href = 3 + length rest" by (subst r) (simp add: ascii_def)
  moreover have "length rest > 0" using ne by simp
  ultimately show "startswith href (ascii ''../'') \<and> length href > 3" by simp
qed

text \<open>
  C5, as stated: an entry is skipped exactly when its name or its href is one of \<open>.\<close>,
  \<open>..\<close>, \<open>./\<close>, \<open>../\<close>, or the href begins with \<open>../\<close> and is longer than 3, or the
  name contains \<open>parent directory\<close> (case-insensitively) or the Chinese literal.
  This fails for the name \<open>./\<close> with href \<open>x\<close>: the source tests the name against
  \<open>.\<close> and \<open>..\<close> only, so the entry is kept.
\<close>

theorem should_skip_item_name_dot_slash_kept:
  "\<not> should_skip_item (ascii ''./'') (ascii ''x'')
   \<and> ascii ''./'' \<in> set [ascii ''.'', ascii ''..'', ascii ''./'', ascii ''../'']"
  by (simp add: should_skip_item_def ascii_def startswith_def lower_def lower_cp_def
      parent_dir_zh_def)

text \<open>
  C5, amended: an entry is skipped exactly when its name is \<open>.\<close> or \<open>..\<close>, or its href
  is one of \<open>../\<close>, \<open>..\<close>, \<open>./\<close>, \<open>.\<close>, or its href begins with \<open>../\<close> and is longer
  than 3 code points, or its lowered name contains \<open>parent directory\<close>, or its name
  contains the Chinese literal; every other entry is kept by the predicate.
\<close>

theorem should_skip_item_iff:
  "should_skip_item name href \<longleftrightarrow>
     (name = ascii ''.'' \<or> name = ascii ''..'')
     \<or> (href = ascii ''../'' \<or> href = ascii ''..'' \<or> href = ascii ''./'' \<or> href = ascii ''.'')
     \<or> (\<exists>rest. href = ascii ''../'' @ rest \<and> rest \<noteq> [])
     \<or> (\<exists>ps ss. lower name = ps @ ascii ''parent directory'' @ ss)
     \<or> (\<exists>ps ss. name = ps @ parent_dir_zh @ ss)"
proof -
  have "should_skip_item name href \<longleftrightarrow>
     (name = ascii ''.'' \<or> name = ascii ''..'')
     \<or> (href = ascii ''../'' \<or> href = ascii ''..'' \<or> href = ascii ''./'' \<or> href = ascii ''.'')
     \<or> (startswith href (ascii ''../'') \<and> length href > 3)
     \<or> py_in (ascii ''parent directory'') (lower name)
     \<or> py_in parent_dir_zh name"
    unfolding should_skip_item_def
    by simp
  then show ?thesis
    by (simp only: dotdot_prefix py_in_iff)
qed

subsection \<open>History ledger\<close>

lemma subseq_remove_nth: "j < length h \<Longrightarrow> subseq (take j h @ drop (Suc j) h) h"
proof -
  assume j: "j < length h"
  have "subseq (drop (Suc j) h) (h ! j # drop (Suc j) h)"
    by (rule list_emb_Cons) (rule subseq_order.order_refl)
  then have "subseq (take j h @ drop (Suc j) h) (take j h @ h ! j # drop (Suc j) h)"
    by (simp only: subseq_append')
  then show ?thesis using j by (simp add: id_take_nth_drop [symmetric])
qed

lemma insert_record_eq: "insert_record r h = take MAX_HISTORY (r # h)"
  by (simp add: insert_record_def Let_def MAX_HISTORY_def)

text \<open>
  C7: an insertion puts the new record at the front, keeps the older records in their
  order behind it and caps the list at 1000; inserting into a full list of 1000 gives
  1000 records, the new one first and the oldest (last) one dropped; deleting a record
  and clearing the list keep the relative order and the bound.
\<close>

theorem history_cap_newest_first:
  "hd (insert_record r h) = r
   \<and> tl (insert_record r h) = take (MAX_HISTORY - 1) h
   \<and> length (insert_record r h) = min MAX_HISTORY (Suc (length h))
   \<and> length (insert_record r h) \<le> 1000
   \<and> (length h = 1000 \<longrightarrow> insert_record r h = r # butlast h \<and> length (insert_record r h) = 1000)
   \<and> (length h \<le> 1000 \<longrightarrow> delete_record idx h = Some h' \<longrightarrow>
        subseq h' h \<and> length h' \<le> 1000)
   \<and> clear_history h = []"
proof -
  have 1: "hd (insert_record r h) = r"
    by (simp add: insert_record_eq MAX_HISTORY_def)
  have 2: "tl (insert_record r h) = take (MAX_HISTORY - 1) h"
    by (simp add: insert_record_eq MAX_HISTORY_def)
  have 3: "length (insert_record r h) = min MAX_HISTORY (Suc (length h))"
    by (simp add: insert_record_eq)
  have 4: "length (insert_record r h) \<le> 1000"
    using 3 by (simp add: MAX_HISTORY_def)
  have 5: "insert_record r h = r # butlast h \<and> length (insert_record r h) = 1000"
    if "length h = 1000"
  proof -
    have "take 999 h = butlast h" using that by (simp add: butlast_conv_take)
    then show ?thesis using that by (simp add: insert_record_eq MAX_HISTORY_def)
  qed
  have 6: "subseq h' h \<and> length h' \<le> 1000"
    if len: "length h \<le> 1000" and del: "delete_record idx h = Some h'"
  proof -
    define j where "j = nat (if idx < 0 then int (length h) + idx else idx)"
    have j: "j < length h"
      using del unfolding j_def delete_record_def Let_def
      by (auto split: if_splits)
    have h': "h' = take j h @ drop (Suc j) h"
      using del unfolding j_def delete_record_def Let_def
      by (auto split: if_splits)
    have "subseq h' h" unfolding h' using j by (rule subseq_remove_nth)
    moreover have "length h' \<le> length h" using h' j by simp
    ultimately show ?thesis using len by simp
  qed
  show ?thesis using 1 2 3 4 5 6 by (simp add: clear_history_def)
qed

theorem history_cap_newest_first_witness:
  "(let r = \<lparr>rec_url = ascii ''u'', rec_local_path = ascii ''p'', rec_name = ascii ''n'',
             rec_status = Success, rec_time = ascii ''t''\<rparr>;
        old = \<lparr>rec_url = ascii ''o'', rec_local_path = [], rec_name = ascii ''o'',
             rec_status = Failure, rec_time = ascii ''s''\<rparr>;
        h = replicate 1000 old
    in length h = 1000 \<and> insert_record r h = r # butlast h
       \<and> length (insert_record r h) = 1000
       \<and> delete_record 0 [r, old] = Some [old] \<and> subseq [old] [r, old])"
proof -
  define r where "r = \<lparr>rec_url = ascii ''u'', rec_local_path = ascii ''p'', rec_name = ascii ''n'',
             rec_status = Success, rec_time = ascii ''t''\<rparr>"
  define old where "old = \<lparr>rec_url = ascii ''o'', rec_local_path = [], rec_name = ascii ''o'',
             rec_status = Failure, rec_time = ascii ''s''\<rparr>"
  have len: "length (replicate 1000 old) = 1000" by simp
  have del: "delete_record 0 [r, old] = Some [old]"
    by (simp add: delete_record_def)
  have a: "insert_record r (replicate 1000 old) = r # butlast (replicate 1000 old)
           \<and> length (insert_record r (replicate 1000 old)) = 1000"
    using history_cap_newest_first [of r "replicate 1000 old"] len by blast
  have b: "subseq [old] [r, old]"
    using history_cap_newest_first [of r "[r, old]" 0 "[old]"] del by simp
  show ?thesis
    using len del a b unfolding r_def old_def Let_def by blast
qed

subsection \<open>Download engine: basic facts\<close>

lemma handler_simps:
  "fst (handler e u n m w) = Inl m"
  "log (snd (handler e u n m w)) = log w"
  "files (snd (handler e u n m w)) = files w"
  "download_history (snd (handler e u n m w)) =
     (if py_in cancel_marker m then download_history w
      else insert_record (history_record e u [] Failure n) (download_history w))"
  by (simp_all add: handler_def add_download_record_def)

lemma add_download_record_simps:
  "log (add_download_record e u lp st n w) = log w"
  "files (add_download_record e u lp st n w) = files w"
  "download_history (add_download_record e u lp st n w) =
     insert_record (history_record e u lp st n) (download_history w)"
  by (simp_all add: add_download_record_def)

lemma is_file_complete_simps:
  "fst (is_file_complete r u n w) = complete_check r n"
  "log (snd (is_file_complete r u n w)) = log w @ [Head u]"
  "files (snd (is_file_complete r u n w)) = files w"
  "download_history (snd (is_file_complete r u n w)) = download_history w"
  by (simp_all add: is_file_complete_def)

text \<open>
  C1: when the target file exists and its size is at least the Content-Length of the HEAD
  probe minus 1024, \<open>_download_file\<close> returns normally; the only request it makes is
  that HEAD probe (no file is opened, no GET is issued, no byte is transferred), the
  files are unchanged, and the history afterwards is the old history with one new record
  at its front (cut to 1000 entries): the record of this URL, with the local path, the
  file name, the status Success and the time of the clock.
\<close>

theorem download_file_already_complete:
  assumes "files w (path_join e save_dir (unquote e (last (split_on slash file_url)))) = Some c"
    and "head_pre e = Head_ok (Int_value remote_size)"
    and "int (length c) \<ge> remote_size - 1024"
  shows "fst (download_file e file_url save_dir w) = Inr ()
    \<and> log (snd (download_file e file_url save_dir w)) = log w @ [Head file_url]
    \<and> files (snd (download_file e file_url save_dir w)) = files w
    \<and> download_history (snd (download_file e file_url save_dir w)) =
        take 1000
          (\<lparr>rec_url = file_url,
            rec_local_path = path_join e save_dir (unquote e (last (split_on slash file_url))),
            rec_name = unquote e (last (split_on slash file_url)),
            rec_status = Success, rec_time = now e\<rparr>
           # download_history w)
    \<and> hd (download_history (snd (download_file e file_url save_dir w))) =
        \<lparr>rec_url = file_url,
         rec_local_path = path_join e save_dir (unquote e (last (split_on slash file_url))),
         rec_name = unquote e (last (split_on slash file_url)),
         rec_status = Success, rec_time = now e\<rparr>"
proof -
  have f: "files w (save_path_of e file_url save_dir) = Some c"
    using assms(1) by (simp add: save_path_of_def file_name_of_def)
  have chk: "complete_check (head_pre e) (length c)"
    using assms(2,3) by (simp add: complete_check_def content_length_def)
  have run: "download_file e file_url save_dir w =
        (Inr (), add_download_record e file_url (save_path_of e file_url save_dir) Success
                   (file_name_of e file_url)
                   (snd (is_file_complete (head_pre e) file_url (length c) w)))"
    using f chk by (simp add: download_file_def Let_def is_file_complete_simps)
  have hist: "download_history (snd (download_file e file_url save_dir w)) =
        take 1000
          (\<lparr>rec_url = file_url,
            rec_local_path = path_join e save_dir (unquote e (last (split_on slash file_url))),
            rec_name = unquote e (last (split_on slash file_url)),
            rec_status = Success, rec_time = now e\<rparr>
           # download_history w)"
    unfolding run
    by (simp add: add_download_record_simps is_file_complete_simps insert_record_eq
        MAX_HISTORY_def history_record_def save_path_of_def file_name_of_def)
  have rest: "fst (download_file e file_url save_dir w) = Inr ()
    \<and> log (snd (download_file e file_url save_dir w)) = log w @ [Head file_url]
    \<and> files (snd (download_file e file_url save_dir w)) = files w"
    unfolding run by (simp add: add_download_record_simps is_file_complete_simps)
  have front: "hd (download_history (snd (download_file e file_url save_dir w))) =
        \<lparr>rec_url = file_url,
         rec_local_path = path_join e save_dir (unquote e (last (split_on slash file_url))),
         rec_name = unquote e (last (split_on slash file_url)),
         rec_status = Success, rec_time = now e\<rparr>"
    unfolding hist by simp
  show ?thesis using rest hist front by blast
qed

theorem download_file_already_complete_witness:
  "fst (download_file (sample_env (Head_ok (Int_value 2000)) (Head_raises []) (Get_raises []))
          (ascii ''http://h/f'') (ascii ''d'') (sample_world (Some (replicate 1000 0)))) = Inr ()
   \<and> log (snd (download_file (sample_env (Head_ok (Int_value 2000)) (Head_raises []) (Get_raises []))
          (ascii ''http://h/f'') (ascii ''d'') (sample_world (Some (replicate 1000 0)))))
       = [Head (ascii ''http://h/f'')]
   \<and> files (snd (download_file (sample_env (Head_ok (Int_value 2000)) (Head_raises []) (Get_raises []))
          (ascii ''http://h/f'') (ascii ''d'') (sample_world (Some (replicate 1000 0)))))
        (ascii ''d/f'') = Some (replicate 1000 0)
   \<and> download_history (snd (download_file
          (sample_env (Head_ok (Int_value 2000)) (Head_raises []) (Get_raises []))
          (ascii ''http://h/f'') (ascii ''d'') (sample_world (Some (replicate 1000 0)))))
       = [\<lparr>rec_url = ascii ''http://h/f'', rec_local_path = ascii ''d/f'', rec_name = ascii ''f'',
           rec_status = Success, rec_time = ascii ''t''\<rparr>]"
proof -
  let ?e = "sample_env (Head_ok (Int_value 2000)) (Head_raises []) (Get_raises [])"
  let ?u = "ascii ''http://h/f''"
  let ?w = "sample_world (Some (replicate 1000 0))"
  have fn: "unquote ?e (last (split_on slash ?u)) = ascii ''f''"
    by (simp add: sample_env_def ascii_def slash_def)
  have sp: "path_join ?e (ascii ''d'') (ascii ''f'') = ascii ''d/f''"
    by (simp add: sample_env_def ascii_def slash_def)
  have f: "files ?w (path_join ?e (ascii ''d'') (unquote ?e (last (split_on slash ?u))))
             = Some (replicate 1000 0)"
    unfolding fn sp by (simp add: sample_world_def)
  have h: "head_pre ?e = Head_ok (Int_value 2000)" by (simp add: sample_env_def)
  have l: "int (length (replicate 1000 (0::nat))) \<ge> 2000 - 1024" by simp
  have w0: "log ?w = []" "download_history ?w = []"
       "files ?w (ascii ''d/f'') = Some (replicate 1000 0)"
    by (simp_all add: sample_world_def)
  have nw: "now ?e = ascii ''t''" by (simp add: sample_env_def)
  show ?thesis
    using download_file_already_complete [OF f h l] unfolding fn sp nw
    by (simp add: w0)
qed

lemma incomplete_msg_no_marker: "\<not> py_in cancel_marker incomplete_msg"
  by (simp add: cancel_marker_def incomplete_msg_def startswith_def)







subsection \<open>Download engine: the run after the first check\<close>


lemma download_file_resume:
  assumes "files w (save_path_of e u d) = Some c" and "c \<noteq> []"
    and "\<not> complete_check (head_pre e) (length c)"
    and "open_error e = None" and "get_response e = Get_ok cl evs"
  shows "download_file e u d w =
     (let r = stream_loop (cancel_download e) cl 0 evs c;
          w3 = w\<lparr>log := log w @ [Head u, Open_file (save_path_of e u d) Append,
                                  Get u (Some (length c))],
                  files := (files w)(save_path_of e u d \<mapsto> snd r)\<rparr>
      in (case fst r of
            Some m \<Rightarrow> handler e u (file_name_of e u) m w3
          | None \<Rightarrow> verify_and_record e u (save_path_of e u d) (file_name_of e u)
                      (length (snd r)) w3))"
  using assms
  by (simp add: download_file_def transfer_def get_and_stream_def Let_def
      is_file_complete_def split: option.split)


lemma verify_and_record_simps:
  "fst (verify_and_record e u sp n k w) =
     (if complete_check (head_post e) k then Inr () else Inl incomplete_msg)"
  "log (snd (verify_and_record e u sp n k w)) = log w @ [Head u]"
  "files (snd (verify_and_record e u sp n k w)) = files w"
  "download_history (snd (verify_and_record e u sp n k w)) =
     (if complete_check (head_post e) k
      then insert_record (history_record e u sp Success n) (download_history w)
      else insert_record (history_record e u [] Failure n) (download_history w))"
  by (simp_all add: verify_and_record_def Let_def is_file_complete_simps handler_simps
      add_download_record_simps incomplete_msg_no_marker)


subsection \<open>Download engine: outcomes and the ledger\<close>





subsection \<open>Download engine: the completeness check\<close>

lemma complete_check_iff:
  "complete_check resp n \<longleftrightarrow>
     resp = Head_ok Absent \<or> (\<exists>r. resp = Head_ok (Int_value r) \<and> r - 1024 \<le> int n)"
proof (cases resp)
  case (Head_raises m)
  then show ?thesis by (simp add: complete_check_def)
next
  case (Head_ok h)
  then show ?thesis
    by (cases h) (simp_all add: complete_check_def content_length_def)
qed

text \<open>
  C10, as stated, ends with: the check returns false only when the HEAD request itself
  raises. Two responses of a HEAD request that does not raise give false for a local
  file of 10 bytes: one whose Content-Length is not an integer literal, and one whose
  Content-Length is 5000.
\<close>

theorem is_file_complete_false_without_raise:
  "\<not> fst (is_file_complete (Head_ok (Malformed (ascii ''invalid literal'')))
            (ascii ''http://h/f'') 10 (sample_world None))
   \<and> \<not> fst (is_file_complete (Head_ok (Int_value 5000))
            (ascii ''http://h/f'') 10 (sample_world None))"
  by (simp add: is_file_complete_def complete_check_def content_length_def)

text \<open>
  C10, amended: when the HEAD probe succeeds without a Content-Length header the check
  holds for every local size; so an existing file, however small, makes the run return
  after that probe alone with a Success record and the files unchanged, and the check
  after a transfer cannot fail. The check is false exactly when the HEAD request
  raises, or the Content-Length is not an integer literal, or the local size is below
  the Content-Length minus 1024.
\<close>

theorem is_file_complete_no_content_length:
  "fst (is_file_complete (Head_ok Absent) u n w)
   \<and> (files w (save_path_of e u d) = Some c \<and> head_pre e = Head_ok Absent \<longrightarrow>
        fst (download_file e u d w) = Inr ()
        \<and> log (snd (download_file e u d w)) = log w @ [Head u]
        \<and> files (snd (download_file e u d w)) = files w
        \<and> download_history (snd (download_file e u d w)) =
            take 1000
              (\<lparr>rec_url = u,
                rec_local_path = path_join e d (unquote e (last (split_on slash u))),
                rec_name = unquote e (last (split_on slash u)),
                rec_status = Success, rec_time = now e\<rparr>
               # download_history w))
   \<and> (head_post e = Head_ok Absent \<longrightarrow>
        fst (verify_and_record e u (save_path_of e u d) (file_name_of e u) k w) = Inr ())
   \<and> (\<not> fst (is_file_complete resp u n w) \<longleftrightarrow>
        (\<exists>m. resp = Head_raises m) \<or> (\<exists>m. resp = Head_ok (Malformed m))
        \<or> (\<exists>r. resp = Head_ok (Int_value r) \<and> int n < r - 1024))"
proof -
  have 1: "fst (is_file_complete (Head_ok Absent) u n w)"
    by (simp add: is_file_complete_simps complete_check_iff)
  have 2: "fst (download_file e u d w) = Inr ()
        \<and> log (snd (download_file e u d w)) = log w @ [Head u]
        \<and> files (snd (download_file e u d w)) = files w
        \<and> download_history (snd (download_file e u d w)) =
            take 1000
              (\<lparr>rec_url = u,
                rec_local_path = path_join e d (unquote e (last (split_on slash u))),
                rec_name = unquote e (last (split_on slash u)),
                rec_status = Success, rec_time = now e\<rparr>
               # download_history w)"
    if "files w (save_path_of e u d) = Some c" "head_pre e = Head_ok Absent"
  proof -
    have run: "download_file e u d w =
        (Inr (), add_download_record e u (save_path_of e u d) Success (file_name_of e u)
                   (snd (is_file_complete (head_pre e) u (length c) w)))"
      using that
      by (simp add: download_file_def Let_def is_file_complete_simps complete_check_iff)
    show ?thesis
      unfolding run
      by (simp add: add_download_record_simps is_file_complete_simps insert_record_eq
          MAX_HISTORY_def history_record_def save_path_of_def file_name_of_def)
  qed
  have 3: "fst (verify_and_record e u (save_path_of e u d) (file_name_of e u) k w) = Inr ()"
    if "head_post e = Head_ok Absent"
    using that by (simp add: verify_and_record_simps complete_check_iff)
  have 4: "\<not> fst (is_file_complete resp u n w) \<longleftrightarrow>
        (\<exists>m. resp = Head_raises m) \<or> (\<exists>m. resp = Head_ok (Malformed m))
        \<or> (\<exists>r. resp = Head_ok (Int_value r) \<and> int n < r - 1024)"
  proof (cases resp)
    case (Head_raises m)
    then show ?thesis by (simp add: is_file_complete_simps complete_check_iff)
  next
    case (Head_ok h)
    then show ?thesis
      by (cases h) (auto simp: is_file_complete_simps complete_check_iff)
  qed
  show ?thesis using 1 2 3 4 by blast
qed

theorem is_file_complete_no_content_length_witness:
  "fst (download_file (sample_env (Head_ok Absent) (Head_ok Absent) (Get_raises []))
          (ascii ''http://h/f'') (ascii ''d'') (sample_world (Some [1]))) = Inr ()
   \<and> log (snd (download_file (sample_env (Head_ok Absent) (Head_ok Absent) (Get_raises []))
          (ascii ''http://h/f'') (ascii ''d'') (sample_world (Some [1]))))
       = [Head (ascii ''http://h/f'')]
   \<and> download_history (snd (download_file
          (sample_env (Head_ok Absent) (Head_ok Absent) (Get_raises []))
          (ascii ''http://h/f'') (ascii ''d'') (sample_world (Some [1]))))
       = [\<lparr>rec_url = ascii ''http://h/f'', rec_local_path = ascii ''d/f'', rec_name = ascii ''f'',
           rec_status = Success, rec_time = ascii ''t''\<rparr>]
   \<and> fst (verify_and_record (sample_env (Head_ok Absent) (Head_ok Absent) (Get_raises []))
          (ascii ''http://h/f'') (ascii ''d/f'') (ascii ''f'') 0 (sample_world (Some [1]))) = Inr ()"
proof -
  let ?e = "sample_env (Head_ok Absent) (Head_ok Absent) (Get_raises [])"
  let ?u = "ascii ''http://h/f''" and ?d = "ascii ''d''"
  let ?w = "sample_world (Some [1])"
  have fn: "file_name_of ?e ?u = ascii ''f''"
    by (simp add: file_name_of_def sample_env_def ascii_def slash_def)
  have sp: "save_path_of ?e ?u ?d = ascii ''d/f''"
    by (simp add: save_path_of_def fn) (simp add: sample_env_def ascii_def slash_def)
  have f: "files ?w (save_path_of ?e ?u ?d) = Some [1]"
    unfolding sp by (simp add: sample_world_def)
  have h: "head_pre ?e = Head_ok Absent" "head_post ?e = Head_ok Absent"
    by (simp_all add: sample_env_def)
  have lg: "log (sample_world c) = []" "download_history (sample_world c) = []" for c
    by (simp_all add: sample_world_def)
  have rc: "unquote ?e (last (split_on slash ?u)) = ascii ''f''"
       "path_join ?e ?d (ascii ''f'') = ascii ''d/f''" "now ?e = ascii ''t''"
    by (simp_all add: sample_env_def ascii_def slash_def)
  note T = is_file_complete_no_content_length [of ?u 0 ?w ?e ?d "[1]" 0 "Head_ok Absent"]
  show ?thesis using T f h unfolding rc by (simp add: lg sp fn)
qed

subsection \<open>Download engine: resuming\<close>

lemma stream_loop_prefix: "prefix content (snd (stream_loop flag cl k evs content))"
proof (induction evs arbitrary: k content)
  case Nil
  then show ?case by (simp split: option.split bool.split)
next
  case (Cons ev evs)
  have step: "prefix content (snd (stream_loop flag cl (Suc k) evs (content @ c)))" for c
    using Cons.IH [where k = "Suc k" and content = "content @ c"] by (rule append_prefixD)
  show ?case
    using step
    by (simp split: option.split bool.split read_event.split sum.split)
qed

lemma get_and_stream_log:
  "\<exists>tl. log (snd (get_and_stream e u sp n start w)) = log w @ tl \<and> (tl = [] \<or> tl = [Head u])"
proof (cases "get_response e")
  case (Get_raises m)
  then show ?thesis by (simp add: get_and_stream_def handler_simps)
next
  case (Get_ok cl evs)
  show ?thesis
  proof (cases "fst (stream_loop (cancel_download e) cl 0 evs start)")
    case None
    then show ?thesis using Get_ok
      by (simp add: get_and_stream_def Let_def verify_and_record_simps)
  next
    case (Some m)
    then show ?thesis using Get_ok
      by (simp add: get_and_stream_def Let_def handler_simps)
  qed
qed

lemma get_and_stream_success:
  assumes "fst (get_and_stream e u sp n start w) = Inr ()"
  shows "\<exists>final. files (snd (get_and_stream e u sp n start w)) sp = Some final
           \<and> prefix start final \<and> complete_check (head_post e) (length final)"
proof (cases "get_response e")
  case (Get_raises m)
  then show ?thesis using assms by (simp add: get_and_stream_def handler_simps)
next
  case (Get_ok cl evs)
  let ?r = "stream_loop (cancel_download e) cl 0 evs start"
  show ?thesis
  proof (cases "fst ?r")
    case (Some m)
    then show ?thesis using Get_ok assms
      by (simp add: get_and_stream_def Let_def handler_simps)
  next
    case None
    then have eq: "get_and_stream e u sp n start w =
        verify_and_record e u sp n (length (snd ?r)) (w\<lparr>files := (files w)(sp \<mapsto> snd ?r)\<rparr>)"
      using Get_ok by (simp add: get_and_stream_def Let_def)
    have ck: "complete_check (head_post e) (length (snd ?r))"
      using assms unfolding eq by (simp add: verify_and_record_simps split: if_splits)
    have "files (snd (get_and_stream e u sp n start w)) sp = Some (snd ?r)"
      unfolding eq by (simp add: verify_and_record_simps)
    then show ?thesis using ck stream_loop_prefix by blast
  qed
qed

lemma transfer_log:
  "\<exists>tl. log (snd (transfer e u sp n p w)) =
          log w @ Open_file sp (if 0 < p then Append else Write)
            # (case open_error e of
                 Some m \<Rightarrow> []
               | None \<Rightarrow> Get u (if 0 < p then Some p else None) # tl)
        \<and> (tl = [] \<or> tl = [Head u])"
proof (cases "open_error e")
  case (Some m)
  then show ?thesis
    by (intro exI [of _ "[]"]) (simp add: transfer_def Let_def handler_simps)
next
  case None
  let ?start = "if 0 < p then (case files w sp of Some c \<Rightarrow> c | None \<Rightarrow> []) else []"
  let ?w2 = "w\<lparr>files := (files w)(sp \<mapsto> ?start),
               log := log w @ [Open_file sp (if 0 < p then Append else Write),
                               Get u (if 0 < p then Some p else None)]\<rparr>"
  have eq: "transfer e u sp n p w = get_and_stream e u sp n ?start ?w2"
    using None by (simp add: transfer_def Let_def)
  obtain tl where "log (snd (get_and_stream e u sp n ?start ?w2)) = log ?w2 @ tl"
    and "tl = [] \<or> tl = [Head u]"
    using get_and_stream_log by blast
  then show ?thesis unfolding eq using None by (intro exI [of _ tl]) simp
qed

lemma transfer_success:
  assumes "fst (transfer e u sp n p w) = Inr ()"
  shows "\<exists>final. files (snd (transfer e u sp n p w)) sp = Some final
           \<and> prefix (if 0 < p then old_content w sp else []) final
           \<and> complete_check (head_post e) (length final)"
proof (cases "open_error e")
  case (Some m)
  then show ?thesis using assms by (simp add: transfer_def Let_def handler_simps)
next
  case None
  let ?start = "if 0 < p then (case files w sp of Some c \<Rightarrow> c | None \<Rightarrow> []) else []"
  let ?w2 = "w\<lparr>files := (files w)(sp \<mapsto> ?start),
               log := log w @ [Open_file sp (if 0 < p then Append else Write),
                               Get u (if 0 < p then Some p else None)]\<rparr>"
  have eq: "transfer e u sp n p w = get_and_stream e u sp n ?start ?w2"
    using None by (simp add: transfer_def Let_def)
  have st: "?start = (if 0 < p then old_content w sp else [])"
    by (simp add: old_content_def)
  show ?thesis
    using get_and_stream_success [of e u sp n ?start ?w2] assms
    unfolding eq st by simp
qed

lemma complete_check_D:
  "complete_check resp k \<Longrightarrow>
     \<exists>h n. resp = Head_ok h \<and> content_length h = Inr n \<and> n - 1024 \<le> int k"
  by (auto simp: complete_check_iff content_length_def)

lemma download_file_not_complete:
  assumes "\<not> already_complete e w (save_path_of e u d)"
  shows "download_file e u d w =
     transfer e u (save_path_of e u d) (file_name_of e u)
       (length (old_content w (save_path_of e u d)))
       (w\<lparr>log := log w @ (case files w (save_path_of e u d) of None \<Rightarrow> [] | Some c \<Rightarrow> [Head u])\<rparr>)"
proof (cases "files w (save_path_of e u d)")
  case None
  then show ?thesis
    by (simp add: download_file_def Let_def old_content_def)
next
  case (Some c)
  then show ?thesis using assms
    by (simp add: download_file_def Let_def old_content_def already_complete_def
        is_file_complete_def)
qed

lemma sample_resumed_run:
  "fst (download_file
          (sample_env (Head_ok (Int_value 1030)) (Head_ok (Int_value 1030))
             (Get_ok (Int_value 1028) [Chunk [3, 4, 5, 6, 7]]))
          (ascii ''http://h/f'') (ascii ''d'') (sample_world (Some [1, 2]))) = Inr ()
   \<and> log (snd (download_file
          (sample_env (Head_ok (Int_value 1030)) (Head_ok (Int_value 1030))
             (Get_ok (Int_value 1028) [Chunk [3, 4, 5, 6, 7]]))
          (ascii ''http://h/f'') (ascii ''d'') (sample_world (Some [1, 2]))))
       = [Head (ascii ''http://h/f''), Open_file (ascii ''d/f'') Append,
          Get (ascii ''http://h/f'') (Some 2), Head (ascii ''http://h/f'')]
   \<and> files (snd (download_file
          (sample_env (Head_ok (Int_value 1030)) (Head_ok (Int_value 1030))
             (Get_ok (Int_value 1028) [Chunk [3, 4, 5, 6, 7]]))
          (ascii ''http://h/f'') (ascii ''d'') (sample_world (Some [1, 2])))) (ascii ''d/f'')
       = Some [1, 2, 3, 4, 5, 6, 7]"
proof -
  let ?e = "sample_env (Head_ok (Int_value 1030)) (Head_ok (Int_value 1030))
             (Get_ok (Int_value 1028) [Chunk [3, 4, 5, 6, 7]])"
  let ?u = "ascii ''http://h/f''" and ?d = "ascii ''d''"
  let ?w = "sample_world (Some [1, 2])"
  have fn: "file_name_of ?e ?u = ascii ''f''"
    by (simp add: file_name_of_def sample_env_def ascii_def slash_def)
  have sp: "save_path_of ?e ?u ?d = ascii ''d/f''"
    by (simp add: save_path_of_def fn) (simp add: sample_env_def ascii_def slash_def)
  have f: "files ?w (save_path_of ?e ?u ?d) = Some [1, 2]"
    unfolding sp by (simp add: sample_world_def)
  have ne: "[1, 2 :: nat] \<noteq> []" by simp
  have ck: "\<not> complete_check (head_pre ?e) (length [1, 2 :: nat])"
    by (simp add: sample_env_def complete_check_def content_length_def)
  have op: "open_error ?e = None" by (simp add: sample_env_def)
  have g: "get_response ?e = Get_ok (Int_value 1028) [Chunk [3, 4, 5, 6, 7]]"
    by (simp add: sample_env_def)
  have st: "stream_loop (cancel_download ?e) (Int_value 1028) 0 [Chunk [3, 4, 5, 6, 7]] [1, 2]
              = (None, [1, 2, 3, 4, 5, 6, 7])"
    by (simp add: sample_env_def content_length_def)
  have post: "complete_check (head_post ?e) (length [1, 2, 3, 4, 5, 6, 7 :: nat])"
    by (simp add: sample_env_def complete_check_def content_length_def)
  have lg: "log (sample_world c) = []" for c by (simp add: sample_world_def)
  have run: "download_file ?e ?u ?d ?w =
      verify_and_record ?e ?u (ascii ''d/f'') (ascii ''f'') (length [1, 2, 3, 4, 5, 6, 7 :: nat])
        (?w\<lparr>log := log ?w @ [Head ?u, Open_file (ascii ''d/f'') Append,
                               Get ?u (Some (length [1, 2 :: nat]))],
            files := (files ?w)(ascii ''d/f'' \<mapsto> [1, 2, 3, 4, 5, 6, 7])\<rparr>)"
    using download_file_resume [OF f ne ck op g] unfolding st Let_def sp fn
    by (simp del: list.size length_Cons)
  show ?thesis
    unfolding run using post by (simp add: verify_and_record_simps lg)
qed

text \<open>
  C2, as stated, ends with: on successful completion the resulting file size equals the
  expected remote total size. A resumed run that ends with a file of 7 bytes returns
  normally although every HEAD probe reports 1030 bytes: the final check accepts any size
  from 1024 bytes below the reported one. (The partial file has 2 bytes, the server sends
  5 more and closes the stream.)
\<close>

theorem download_file_resumed_size_differs:
  "fst (download_file
          (sample_env (Head_ok (Int_value 1030)) (Head_ok (Int_value 1030))
             (Get_ok (Int_value 1028) [Chunk [3, 4, 5, 6, 7]]))
          (ascii ''http://h/f'') (ascii ''d'') (sample_world (Some [1, 2]))) = Inr ()
   \<and> log (snd (download_file
          (sample_env (Head_ok (Int_value 1030)) (Head_ok (Int_value 1030))
             (Get_ok (Int_value 1028) [Chunk [3, 4, 5, 6, 7]]))
          (ascii ''http://h/f'') (ascii ''d'') (sample_world (Some [1, 2]))))
       = [Head (ascii ''http://h/f''), Open_file (ascii ''d/f'') Append,
          Get (ascii ''http://h/f'') (Some 2), Head (ascii ''http://h/f'')]
   \<and> files (snd (download_file
          (sample_env (Head_ok (Int_value 1030)) (Head_ok (Int_value 1030))
             (Get_ok (Int_value 1028) [Chunk [3, 4, 5, 6, 7]]))
          (ascii ''http://h/f'') (ascii ''d'') (sample_world (Some [1, 2])))) (ascii ''d/f'')
       = Some [1, 2, 3, 4, 5, 6, 7]
   \<and> length [1, 2, 3, 4, 5, 6, 7 :: nat] \<noteq> 1030"
  using sample_resumed_run by simp

text \<open>
  C2, amended: in every run that does not find the file already complete, with \<open>P\<close> the
  size of the local file (0 when there is none), the file is opened in append mode when
  \<open>P > 0\<close> and in fresh-write mode when \<open>P = 0\<close>; if it can be opened, the GET request
  that follows carries \<open>Range: bytes=P-\<close> when \<open>P > 0\<close> and no header when \<open>P = 0\<close>, and
  nothing but the final HEAD probe comes after it; and when the run returns normally
  the resulting file begins with the old content and its size is at least the
  Content-Length reported by the final HEAD probe (0 when the header is absent) minus
  1024.
\<close>

theorem download_file_range_request:
  "\<not> already_complete e w (save_path_of e u d) \<longrightarrow>
     (\<exists>tl. log (snd (download_file e u d w)) =
          log w @ (case files w (save_path_of e u d) of None \<Rightarrow> [] | Some c \<Rightarrow> [Head u])
            @ Open_file (save_path_of e u d)
                (if 0 < length (old_content w (save_path_of e u d)) then Append else Write)
            # (case open_error e of
                 Some m \<Rightarrow> []
               | None \<Rightarrow>
                   Get u (if 0 < length (old_content w (save_path_of e u d))
                          then Some (length (old_content w (save_path_of e u d))) else None)
                   # tl)
         \<and> (tl = [] \<or> tl = [Head u]))
     \<and> (fst (download_file e u d w) = Inr () \<longrightarrow>
          (\<exists>final h n. files (snd (download_file e u d w)) (save_path_of e u d) = Some final
             \<and> prefix (old_content w (save_path_of e u d)) final
             \<and> head_post e = Head_ok h \<and> content_length h = Inr n
             \<and> n - 1024 \<le> int (length final)))"
proof
  assume nc: "\<not> already_complete e w (save_path_of e u d)"
  let ?sp = "save_path_of e u d"
  let ?p = "length (old_content w ?sp)"
  let ?w1 = "w\<lparr>log := log w @ (case files w ?sp of None \<Rightarrow> [] | Some c \<Rightarrow> [Head u])\<rparr>"
  have eq: "download_file e u d w = transfer e u ?sp (file_name_of e u) ?p ?w1"
    using nc by (rule download_file_not_complete)
  have old: "old_content ?w1 ?sp = old_content w ?sp" by (simp add: old_content_def)
  have lg: "log ?w1 = log w @ (case files w ?sp of None \<Rightarrow> [] | Some c \<Rightarrow> [Head u])" by simp
  obtain tl where tl: "log (snd (transfer e u ?sp (file_name_of e u) ?p ?w1)) =
          log ?w1 @ Open_file ?sp (if 0 < ?p then Append else Write)
            # (case open_error e of
                 Some m \<Rightarrow> []
               | None \<Rightarrow> Get u (if 0 < ?p then Some ?p else None) # tl)"
      "tl = [] \<or> tl = [Head u]"
    using transfer_log [of e u ?sp "file_name_of e u" ?p ?w1] by blast
  have A: "\<exists>tl. log (snd (download_file e u d w)) =
          log w @ (case files w ?sp of None \<Rightarrow> [] | Some c \<Rightarrow> [Head u])
            @ Open_file ?sp (if 0 < ?p then Append else Write)
            # (case open_error e of
                 Some m \<Rightarrow> []
               | None \<Rightarrow> Get u (if 0 < ?p then Some ?p else None) # tl)
         \<and> (tl = [] \<or> tl = [Head u])"
    unfolding eq using tl lg by (intro exI [of _ tl]) simp
  have B: "\<exists>final h n. files (snd (download_file e u d w)) ?sp = Some final
             \<and> prefix (old_content w ?sp) final
             \<and> head_post e = Head_ok h \<and> content_length h = Inr n
             \<and> n - 1024 \<le> int (length final)"
    if ok: "fst (download_file e u d w) = Inr ()"
  proof -
    obtain final where fin: "files (snd (transfer e u ?sp (file_name_of e u) ?p ?w1)) ?sp = Some final"
      "prefix (if 0 < ?p then old_content ?w1 ?sp else []) final"
      "complete_check (head_post e) (length final)"
      using transfer_success [of e u ?sp "file_name_of e u" ?p ?w1] ok unfolding eq by blast
    have pre: "prefix (old_content w ?sp) final"
      using fin(2) unfolding old by (cases "old_content w ?sp = []") simp_all
    obtain h n where "head_post e = Head_ok h" "content_length h = Inr n"
      "n - 1024 \<le> int (length final)"
      using complete_check_D [OF fin(3)] by blast
    then show ?thesis using fin(1) pre unfolding eq by blast
  qed
  show "(\<exists>tl. log (snd (download_file e u d w)) =
          log w @ (case files w ?sp of None \<Rightarrow> [] | Some c \<Rightarrow> [Head u])
            @ Open_file ?sp (if 0 < ?p then Append else Write)
            # (case open_error e of
                 Some m \<Rightarrow> []
               | None \<Rightarrow> Get u (if 0 < ?p then Some ?p else None) # tl)
         \<and> (tl = [] \<or> tl = [Head u]))
     \<and> (fst (download_file e u d w) = Inr () \<longrightarrow>
          (\<exists>final h n. files (snd (download_file e u d w)) ?sp = Some final
             \<and> prefix (old_content w ?sp) final
             \<and> head_post e = Head_ok h \<and> content_length h = Inr n
             \<and> n - 1024 \<le> int (length final)))"
    using A B by blast
qed

theorem download_file_range_request_witness:
  "\<not> already_complete
       (sample_env (Head_ok (Int_value 1030)) (Head_ok (Int_value 1030))
          (Get_ok (Int_value 1028) [Chunk [3, 4, 5, 6, 7]]))
       (sample_world (Some [1, 2])) (ascii ''d/f'')
   \<and> (\<exists>final h n. files (snd (download_file
          (sample_env (Head_ok (Int_value 1030)) (Head_ok (Int_value 1030))
             (Get_ok (Int_value 1028) [Chunk [3, 4, 5, 6, 7]]))
          (ascii ''http://h/f'') (ascii ''d'') (sample_world (Some [1, 2])))) (ascii ''d/f'')
             = Some final
        \<and> prefix [1, 2] final
        \<and> Head_ok (Int_value 1030) = Head_ok h \<and> content_length h = Inr n
        \<and> n - 1024 \<le> int (length final))"
proof -
  let ?e = "sample_env (Head_ok (Int_value 1030)) (Head_ok (Int_value 1030))
             (Get_ok (Int_value 1028) [Chunk [3, 4, 5, 6, 7]])"
  let ?u = "ascii ''http://h/f''" and ?d = "ascii ''d''"
  let ?w = "sample_world (Some [1, 2])"
  have fn: "file_name_of ?e ?u = ascii ''f''"
    by (simp add: file_name_of_def sample_env_def ascii_def slash_def)
  have sp: "save_path_of ?e ?u ?d = ascii ''d/f''"
    by (simp add: save_path_of_def fn) (simp add: sample_env_def ascii_def slash_def)
  have nc: "\<not> already_complete ?e ?w (ascii ''d/f'')"
    by (simp add: already_complete_def sample_world_def sample_env_def complete_check_def
        content_length_def)
  have ok: "fst (download_file ?e ?u ?d ?w) = Inr ()"
    using sample_resumed_run by blast
  have oc: "old_content ?w (ascii ''d/f'') = [1, 2]"
    by (simp add: old_content_def sample_world_def)
  have hp: "head_post ?e = Head_ok (Int_value 1030)" by (simp add: sample_env_def)
  show ?thesis
    using download_file_range_request [of ?e ?w ?u ?d] nc ok
    unfolding sp oc hp by blast
qed

subsection \<open>File tasks: the destination directory\<close>

lemma split_on_no_sep: "p \<in> set (split_on sep s) \<Longrightarrow> sep \<notin> set p"
proof (induction s arbitrary: p)
  case Nil
  then show ?case by simp
next
  case (Cons c cs)
  show ?case
  proof (cases "c = sep")
    case True
    then show ?thesis using Cons by auto
  next
    case False
    obtain q qs where q: "split_on sep cs = q # qs"
      by (cases "split_on sep cs") (cases cs, simp_all split: if_splits list.splits)
    then have "p = c # q \<or> p \<in> set qs" using Cons.prems False by simp
    moreover have "sep \<notin> set q" using Cons.IH [of q] q by simp
    moreover have "p \<in> set qs \<Longrightarrow> sep \<notin> set p" using Cons.IH [of p] q by simp
    ultimately show ?thesis using False by auto
  qed
qed

lemma sanitize_map:
  "sanitize s = map (\<lambda>c. if c \<in> set INVALID_CHARS then underscore else c) s"
  by (induction s)
     (simp_all add: sanitize_def INVALID_CHARS_def str_replace_def underscore_def)

lemma sanitize_clean: "set (sanitize s) \<inter> set INVALID_CHARS = {}"
  unfolding sanitize_map by (auto simp: INVALID_CHARS_def underscore_def)

text \<open>
  C9: for a File task whose URL has at least two non-empty segments between slashes
  (trailing slashes removed first), \<open>_download_item\<close> downloads the file into the
  directory obtained by joining the download directory with the second-to-last of these
  segments, percent-decoded and with every character of \<open>INVALID_CHARS\<close> replaced by an
  underscore; no other part of the URL enters the name of the directory. (The directory
  is created first; the statement is for the case that this succeeds.)
\<close>

theorem file_task_destination:
  assumes "item_type item \<noteq> dir_label"
    and "length (url_parts (item_url item)) \<ge> 2"
  shows "download_item dd None e download_dir item w =
           task_outcome (item_name item)
             (download_file e (item_url item)
                (path_join e download_dir
                   (map (\<lambda>c. if c \<in> set INVALID_CHARS then underscore else c)
                      (unquote e (url_parts (item_url item)
                                    ! (length (url_parts (item_url item)) - 2)))))
                w)
         \<and> (\<forall>p \<in> set (url_parts (item_url item)). p \<noteq> [] \<and> slash \<notin> set p)
         \<and> set (map (\<lambda>c. if c \<in> set INVALID_CHARS then underscore else c)
                  (unquote e (url_parts (item_url item)
                                ! (length (url_parts (item_url item)) - 2))))
             \<inter> set INVALID_CHARS = {}"
proof -
  have 1: "download_item dd None e download_dir item w =
           task_outcome (item_name item)
             (download_file e (item_url item)
                (path_join e download_dir
                   (sanitize (unquote e (url_parts (item_url item)
                                    ! (length (url_parts (item_url item)) - 2)))))
                w)"
    using assms by (simp add: download_item_def file_dir_of_def Let_def)
  have 2: "\<forall>p \<in> set (url_parts (item_url item)). p \<noteq> [] \<and> slash \<notin> set p"
    by (auto simp: url_parts_def dest: split_on_no_sep)
  show ?thesis
    using 1 2 sanitize_clean [of "unquote e (url_parts (item_url item)
                                    ! (length (url_parts (item_url item)) - 2))"]
    unfolding sanitize_map by blast
qed

theorem file_task_destination_witness:
  "url_parts (ascii ''http://h/a:b/f'') = [ascii ''http:'', ascii ''h'', ascii ''a:b'', ascii ''f'']
   \<and> download_item (\<lambda>u d w. (Inr (), w)) None (sample_env (Head_raises []) (Head_raises []) (Get_raises []))
        (ascii ''d'')
        \<lparr>item_name = ascii ''f'', item_type = ascii ''file'', item_url = ascii ''http://h/a:b/f''\<rparr>
        (sample_world None)
      = task_outcome (ascii ''f'')
          (download_file (sample_env (Head_raises []) (Head_raises []) (Get_raises []))
             (ascii ''http://h/a:b/f'') (ascii ''d/a_b'') (sample_world None))"
proof -
  let ?e = "sample_env (Head_raises []) (Head_raises []) (Get_raises [])"
  let ?item = "\<lparr>item_name = ascii ''f'', item_type = ascii ''file'',
                item_url = ascii ''http://h/a:b/f''\<rparr>"
  have parts: "url_parts (ascii ''http://h/a:b/f'')
                 = [ascii ''http:'', ascii ''h'', ascii ''a:b'', ascii ''f'']"
    by (simp add: url_parts_def rstrip_def ascii_def slash_def)
  have ty: "item_type ?item \<noteq> dir_label" by (simp add: dir_label_def ascii_def)
  have len: "length (url_parts (item_url ?item)) \<ge> 2" by (simp add: parts)
  have seg: "url_parts (item_url ?item) ! (length (url_parts (item_url ?item)) - 2)
               = ascii ''a:b''"
    by (simp add: parts)
  have dir: "path_join ?e (ascii ''d'')
               (map (\<lambda>c. if c \<in> set INVALID_CHARS then underscore else c)
                  (unquote ?e (url_parts (item_url ?item) ! (length (url_parts (item_url ?item)) - 2))))
             = ascii ''d/a_b''"
    unfolding seg
    by (simp add: sample_env_def INVALID_CHARS_def underscore_def ascii_def slash_def)
  show ?thesis
    using file_task_destination [OF ty len, of "\<lambda>u d w. (Inr (), w)" ?e "ascii ''d''" "sample_world None"] parts
    unfolding dir by simp
qed

subsection \<open>Batch: the two loops\<close>









lemma cancelled_not_returned_true: "cancelled_result r \<Longrightarrow> \<not> returned_true r"
  by (cases r) (simp_all add: cancelled_result_def returned_true_def)


subsection \<open>Download engine: a cancelled run\<close>



subsection \<open>Batch: cancellation\<close>





subsection \<open>Sizes\<close>

text \<open>
  C8: a size token \<open>-\<close> after the anchor is turned into the unknown size by
  \<open>_parse_file_info\<close>, and \<open>parse_size\<close> gives 0 for it; \<open>2K\<close> gives 2048, \<open>1.5M\<close>
  gives 1572864 and \<open>1G\<close> gives 1073741824 (given that \<open>float\<close> reads \<open>2\<close>, \<open>1.5\<close> and
  \<open>1\<close> as these numbers); a text whose numeric part \<open>float\<close> refuses gives 0; and
  \<open>parse_size\<close> returns a number for every string and every behaviour of \<open>float\<close>: it
  never raises.
\<close>

theorem parse_size_values:
  "(s \<noteq> [] \<and> strip s \<noteq> [] \<and> length (split_ws (strip s)) \<ge> 3
      \<and> split_ws (strip s) ! 2 = ascii ''-'' \<longrightarrow>
      parse_file_info (Text_node s)
        = Inr (py_join (ascii '' '') (take 2 (split_ws (strip s))), unknown))
   \<and> parse_size flt unknown = Inr 0
   \<and> (flt (ascii ''2'') = Inr 2 \<longrightarrow> parse_size flt (ascii ''2K'') = Inr 2048)
   \<and> (flt (ascii ''1.5'') = Inr (3 / 2) \<longrightarrow> parse_size flt (ascii ''1.5M'') = Inr 1572864)
   \<and> (flt (ascii ''1'') = Inr 1 \<longrightarrow> parse_size flt (ascii ''1G'') = Inr 1073741824)
   \<and> (flt (if endswith t (ascii ''K'') \<or> endswith t (ascii ''M'') \<or> endswith t (ascii ''G'')
            then butlast t else t) = Inl m \<longrightarrow>
        parse_size flt t = Inr 0)
   \<and> (\<exists>v. parse_size flt t = Inr v)"
proof -
  have 1: "parse_file_info (Text_node s)
        = Inr (py_join (ascii '' '') (take 2 (split_ws (strip s))), unknown)"
    if "s \<noteq> []" "strip s \<noteq> []" "length (split_ws (strip s)) \<ge> 3"
       "split_ws (strip s) ! 2 = ascii ''-''"
    using that by (simp add: parse_file_info_def Let_def)
  have 2: "parse_size flt unknown = Inr 0"
    by (simp add: parse_size_def parse_size_try_def)
  have 3: "parse_size flt (ascii ''2K'') = Inr 2048" if "flt (ascii ''2'') = Inr 2"
    using that
    by (simp add: parse_size_def parse_size_try_def endswith_def unknown_def ascii_def)
  have 4: "parse_size flt (ascii ''1.5M'') = Inr 1572864" if "flt (ascii ''1.5'') = Inr (3 / 2)"
    using that
    by (simp add: parse_size_def parse_size_try_def endswith_def unknown_def ascii_def)
  have 5: "parse_size flt (ascii ''1G'') = Inr 1073741824" if "flt (ascii ''1'') = Inr 1"
    using that
    by (simp add: parse_size_def parse_size_try_def endswith_def unknown_def ascii_def)
  have 6: "parse_size flt t = Inr 0"
    if "flt (if endswith t (ascii ''K'') \<or> endswith t (ascii ''M'') \<or> endswith t (ascii ''G'')
            then butlast t else t) = Inl m"
    using that
    by (auto simp: parse_size_def parse_size_try_def split: if_splits)
  have 7: "\<exists>v. parse_size flt t = Inr v"
    by (cases "parse_size_try flt t") (simp_all add: parse_size_def)
  show ?thesis using 1 2 3 4 5 6 7 by blast
qed

theorem parse_size_values_witness:
  "parse_file_info (Text_node (ascii '' 01-Jan-2024 10:00  -''))
     = Inr (ascii ''01-Jan-2024 10:00'', unknown)
   \<and> parse_size decimal_float (ascii ''2K'') = Inr 2048
   \<and> parse_size decimal_float (ascii ''1.5M'') = Inr 1572864
   \<and> parse_size decimal_float (ascii ''1G'') = Inr 1073741824
   \<and> parse_size decimal_float (ascii ''-'') = Inr 0"
proof -
  let ?s = "ascii '' 01-Jan-2024 10:00  -''"
  have sp: "split_ws (strip ?s) = [ascii ''01-Jan-2024'', ascii ''10:00'', ascii ''-'']"
    by (simp add: strip_def split_ws_def is_space_def ascii_def)
  have h1: "?s \<noteq> [] \<and> strip ?s \<noteq> [] \<and> length (split_ws (strip ?s)) \<ge> 3
      \<and> split_ws (strip ?s) ! 2 = ascii ''-''"
    unfolding sp by (simp add: strip_def is_space_def ascii_def)
  have f2: "decimal_float (ascii ''2'') = Inr 2"
    by (simp add: decimal_float_def is_digit_def digits_value_def ascii_def)
  have f15: "decimal_float (ascii ''1.5'') = Inr (3 / 2)"
    by (simp add: decimal_float_def is_digit_def digits_value_def ascii_def)
  have f1: "decimal_float (ascii ''1'') = Inr 1"
    by (simp add: decimal_float_def is_digit_def digits_value_def ascii_def)
  have fm: "decimal_float (if endswith (ascii ''-'') (ascii ''K'') \<or> endswith (ascii ''-'') (ascii ''M'')
                 \<or> endswith (ascii ''-'') (ascii ''G'')
            then butlast (ascii ''-'') else ascii ''-'') = Inl (ascii ''could not convert string to float'')"
    by (simp add: decimal_float_def is_digit_def endswith_def ascii_def)
  note T = parse_size_values [of ?s decimal_float "ascii ''-''" "ascii ''could not convert string to float''"]
  have jn: "py_join (ascii '' '') (take 2 (split_ws (strip ?s))) = ascii ''01-Jan-2024 10:00''"
    unfolding sp by (simp add: ascii_def)
  show ?thesis using T h1 f2 f15 f1 fm unfolding jn by blast
qed

subsection \<open>Directory cache\<close>






end
